theory Spec2Isabelle
  imports Main
begin

section \<open>The migrations handler of serverless-sequelize-migrations\<close>

text \<open>
  The repository is one class, \<open>MigrationsHandler\<close>
  (\<open>src/handlers/migrationsHandler.js\<close>), whose public operations \<open>migrate\<close>,
  \<open>revert\<close>, \<open>reset\<close> and \<open>list\<close> drive a migration runner (\<open>this.umzug\<close>), write
  progress lines and close the database connection (\<open>this.sequelize.close()\<close>).
  The operations are asynchronous but strictly sequential (every promise is awaited
  before the next statement), so each one is modelled as a function from the state
  before the call to the state after it and the outcome: \<open>Inr v\<close> when the promise
  resolves with \<open>v\<close>, \<open>Inl e\<close> when it rejects with error \<open>e\<close>.
\<close>

subsection \<open>State\<close>

text \<open>An invocation of a unit's operation: \<open>up()\<close> or \<open>down()\<close> of the named unit.\<close>

datatype op = Up string | Down string

text \<open>
  The lines the handler writes through \<open>this.serverless.cli.log\<close> and \<open>console.log\<close>,
  one constructor per message template of the source:
  \<^item> \<open>LookingForPending\<close>: "Looking for pending migrations..."
  \<^item> \<open>ApplyingPending\<close>: "Applying pending migrations..."
  \<^item> \<open>AppliedCount n\<close>: "n applied migrations"
  \<^item> \<open>Arrow f\<close>: "=> f" (console)
  \<^item> \<open>ErrorApplying\<close>: "Error while applying migrations"
  \<^item> \<open>LookingForProblem\<close>: "Looking for migration that has problems..."
  \<^item> \<open>SomethingWrong x\<close>: "Something wrong with x"; \<open>None\<close> is JavaScript's
    \<open>undefined\<close>, the value of an array read out of range
  \<^item> \<open>RevertingApplied\<close>: "Reverting applied migrations..."
  \<^item> \<open>ArrowReverted f\<close>: "=> reverted f" (console)
  \<^item> \<open>NoPending\<close>: "No pending migrations to apply"
  \<^item> \<open>TryingRevertName n\<close>: "Trying to revert migration n"
  \<^item> \<open>RevertedCount n\<close>: "n reverted migrations"
  \<^item> \<open>TryingRevertLast t\<close>: "Trying to revert the last t migrations"
  \<^item> \<open>NothingToRevert\<close>: "There isn't migrations to revert"
  \<^item> \<open>TryingRevertLastOne\<close>: "Trying to revert the last migration"
  \<^item> \<open>TryingRevertAll\<close>: "Trying to revert all migrations..."
  \<^item> \<open>Searching s\<close>: "Searching for s migrations..."
  \<^item> \<open>ExecutedCount n\<close>: "n executed migrations"
  \<^item> \<open>PendingCount n\<close>: "n pending migrations"
\<close>

datatype event =
    LookingForPending
  | ApplyingPending
  | AppliedCount nat
  | Arrow string
  | ErrorApplying
  | LookingForProblem
  | SomethingWrong "string option"
  | RevertingApplied
  | ArrowReverted string
  | NoPending
  | TryingRevertName string
  | RevertedCount nat
  | TryingRevertLast int
  | NothingToRevert
  | TryingRevertLastOne
  | TryingRevertAll
  | Searching string
  | ExecutedCount nat
  | PendingCount nat

text \<open>
  Errors. \<open>TimesError\<close> is the handler's own \<open>Error("--times must be greater than 0")\<close>;
  the other three are rejections of the migration runner: a commit unit that fails going
  up, one that fails going down, and a name that was never applied.
\<close>

datatype error =
    TimesError
  | UpFailed string
  | DownFailed string
  | NotApplied string

text \<open>
  The state an operation runs in. \<open>units\<close> are the names of the migration files in
  definition order; \<open>up_ok n h\<close> (\<open>down_ok n h\<close>) tells whether the commit unit of
  migration \<open>n\<close>, its \<open>up()\<close> (\<open>down()\<close>) followed by the ledger write, succeeds when
  run after the history \<open>h\<close> of earlier invocations; \<open>ops\<close> is that history; \<open>ledger\<close>
  holds the applied names in the order they were applied; \<open>conn_closed\<close> records that
  \<open>this.sequelize.close()\<close> has been called; \<open>report\<close> is what has been logged.
\<close>

record world =
  units :: "string list"
  up_ok :: "string \<Rightarrow> op list \<Rightarrow> bool"
  down_ok :: "string \<Rightarrow> op list \<Rightarrow> bool"
  ops :: "op list"
  ledger :: "string list"
  conn_closed :: bool
  report :: "event list"

definition say :: "event list \<Rightarrow> world \<Rightarrow> world" where
  "say es w = w\<lparr>report := report w @ es\<rparr>"

text \<open>\<open>this.sequelize.close()\<close>\<close>

definition close :: "world \<Rightarrow> world" where
  "close w = w\<lparr>conn_closed := True\<rparr>"

subsection \<open>The migration runner\<close>

text \<open>
  Modelled from the spec: the migration runner behind \<open>this.umzug\<close> (the Umzug
  library with its Sequelize ledger storage) is a dependency that is not part of the
  repository. \<open>umzug.pending()\<close> is the spec's pending set: all units minus the
  applied names, in unit order.
\<close>

definition umzug_pending :: "world \<Rightarrow> string list" where
  "umzug_pending w = filter (\<lambda>n. n \<notin> set (ledger w)) (units w)"

text \<open>
  Modelled from the spec: \<open>umzug.executed()\<close> is the ledger's \<open>applied()\<close>, the
  applied names in applied order (the runner itself is missing from the repository).
\<close>

definition umzug_executed :: "world \<Rightarrow> string list" where
  "umzug_executed w = ledger w"

text \<open>
  Modelled from the spec: \<open>umzug.up()\<close> (missing from the repository) runs every pending
  unit in order: its \<open>up()\<close>, then the ledger append. The pair is the commit unit of the
  migration: when it fails the loop stops, the ledger record is absent and the promise
  rejects; the units committed before stay in the ledger. On success the promise
  resolves with the migrations applied.
\<close>

fun up_each :: "string list \<Rightarrow> world \<Rightarrow> world \<times> (error + string list)" where
  "up_each [] w = (w, Inr [])"
| "up_each (n # ns) w =
     (if up_ok w n (ops w) then
        (case up_each ns (w\<lparr>ops := ops w @ [Up n], ledger := ledger w @ [n]\<rparr>) of
           (w', Inl e) \<Rightarrow> (w', Inl e)
         | (w', Inr applied) \<Rightarrow> (w', Inr (n # applied)))
      else (w\<lparr>ops := ops w @ [Up n]\<rparr>, Inl (UpFailed n)))"

definition umzug_up :: "world \<Rightarrow> world \<times> (error + string list)" where
  "umzug_up w = up_each (umzug_pending w) w"

text \<open>
  Modelled from the spec: \<open>umzug.down({ migrations: names })\<close> (missing from the
  repository) is the spec's revert by name set. It takes the names in the order given;
  for each it runs \<open>down()\<close> and then removes the ledger record. A name that is not
  applied is refused; a failing \<open>down()\<close> stops the operation and is surfaced, leaving
  whatever was reverted before durably reverted. On success the promise resolves with the
  migrations reverted.
\<close>

fun down_each :: "string list \<Rightarrow> world \<Rightarrow> world \<times> (error + string list)" where
  "down_each [] w = (w, Inr [])"
| "down_each (n # ns) w =
     (if n \<notin> set (ledger w) then (w, Inl (NotApplied n))
      else if down_ok w n (ops w) then
        (case down_each ns (w\<lparr>ops := ops w @ [Down n], ledger := removeAll n (ledger w)\<rparr>) of
           (w', Inl e) \<Rightarrow> (w', Inl e)
         | (w', Inr reverted) \<Rightarrow> (w', Inr (n # reverted)))
      else (w\<lparr>ops := ops w @ [Down n]\<rparr>, Inl (DownFailed n)))"

definition umzug_down_migrations :: "string list \<Rightarrow> world \<Rightarrow> world \<times> (error + string list)" where
  "umzug_down_migrations names w = down_each names w"

text \<open>
  Modelled from the spec: \<open>umzug.down()\<close> without arguments (missing from the
  repository) reverts the most recently applied migration and tolerates an empty ledger,
  resolving with no migration.
\<close>

definition umzug_down :: "world \<Rightarrow> world \<times> (error + string list)" where
  "umzug_down w = (if ledger w = [] then (w, Inr []) else down_each [last (ledger w)] w)"

text \<open>
  Modelled from the spec: \<open>umzug.down({ to: 0 })\<close> (missing from the repository) reverts
  all applied migrations, most recent first.
\<close>

definition umzug_down_to_0 :: "world \<Rightarrow> world \<times> (error + string list)" where
  "umzug_down_to_0 w = down_each (rev (ledger w)) w"

subsection \<open>The handler\<close>

text \<open>
  An array read \<open>xs[i]\<close> of JavaScript: \<open>undefined\<close> out of range.
\<close>

definition js_index :: "'a list \<Rightarrow> nat \<Rightarrow> 'a option" where
  "js_index xs i = (if i < length xs then Some (xs ! i) else None)"

text \<open>
  Lines 117-119: the pending migrations that the ledger lists,
  \<open>pendingMigrations.filter(pending => executedMigrations.indexOf(pending) !== -1)\<close>.
\<close>

definition executedFromPending :: "string list \<Rightarrow> string list \<Rightarrow> string list" where
  "executedFromPending pendingMigrations executedMigrations =
     filter (\<lambda>pending. pending \<in> set executedMigrations) pendingMigrations"

text \<open>
  Lines 106-146: the handler of a rejected \<open>umzug.up()\<close>. It is itself asynchronous:
  a rejection of the \<open>umzug.down\<close> it awaits rejects the handler's promise.
\<close>

definition migrate_catch :: "bool \<Rightarrow> string list \<Rightarrow> world \<Rightarrow> world \<times> (error + unit)" where
  "migrate_catch revertError pendingMigrations w =
     (let w1 = say [ErrorApplying, LookingForProblem] w;
          executedMigrations = umzug_executed w1;
          efp = executedFromPending pendingMigrations executedMigrations
      in if length efp > 0 then
           (let w2 = say [SomethingWrong (js_index pendingMigrations (length efp))] w1
            in if revertError then
                 (case umzug_down_migrations efp (say [RevertingApplied] w2) of
                    (w3, Inl e) \<Rightarrow> (w3, Inl e)
                  | (w3, Inr revertedMigrations) \<Rightarrow>
                      (say (map ArrowReverted revertedMigrations) w3, Inr ()))
               else (w2, Inr ()))
         else (say [SomethingWrong (js_index pendingMigrations 0)] w1, Inr ()))"

text \<open>
  The last statement of every operation, \<open>this.sequelize.close()\<close>: it is reached when
  what precedes it completes, not when an awaited promise rejects.
\<close>

definition then_close :: "world \<times> (error + 'a) \<Rightarrow> world \<times> (error + 'a)" where
  "then_close r = (case r of (w', Inl e) \<Rightarrow> (w', Inl e) | (w', Inr v) \<Rightarrow> (close w', Inr v))"

text \<open>Lines 80-155.\<close>

definition migrate :: "bool \<Rightarrow> world \<Rightarrow> world \<times> (error + bool)" where
  "migrate revertError w =
     (let w1 = say [LookingForPending] w;
          pendingMigrations = umzug_pending w1
      in then_close
           (if length pendingMigrations > 0 then
              (case umzug_up (say [ApplyingPending] w1) of
                 (w2, Inr appliedMigrations) \<Rightarrow>
                   (say (AppliedCount (length appliedMigrations) # map Arrow appliedMigrations) w2,
                    Inr True)
               | (w2, Inl _) \<Rightarrow>
                   (case migrate_catch revertError pendingMigrations w2 of
                      (w3, Inl e) \<Rightarrow> (w3, Inl e)
                    | (w3, Inr _) \<Rightarrow> (w3, Inr False)))
            else (say [NoPending] w1, Inr True)))"

text \<open>
  The truthiness of the \<open>name\<close> argument: \<open>null\<close> (the default) and the empty string
  are falsy, every other string is truthy.
\<close>

definition truthy :: "string option \<Rightarrow> bool" where
  "truthy name = (case name of None \<Rightarrow> False | Some s \<Rightarrow> s \<noteq> [])"

text \<open>
  The handler \<open>.then(migrations => ...)\<close> that \<open>revert\<close> and \<open>reset\<close> attach to
  \<open>umzug.down\<close>: the count line and one line per reverted migration. A rejection passes
  through it.
\<close>

definition then_reverted :: "world \<times> (error + string list) \<Rightarrow> world \<times> (error + unit)" where
  "then_reverted r =
     (case r of
        (w', Inl e) \<Rightarrow> (w', Inl e)
      | (w', Inr migrations) \<Rightarrow>
          (say (RevertedCount (length migrations) # map Arrow migrations) w', Inr ()))"

text \<open>
  Lines 157-208. \<open>slice(0, times)\<close> keeps the first \<open>times\<close> elements, all of them when
  there are fewer. The count is an integer; \<open>the name\<close> is read only where the name is
  truthy, hence a string.
\<close>

definition revert :: "int \<Rightarrow> string option \<Rightarrow> world \<Rightarrow> world \<times> (error + unit)" where
  "revert tms name w =
     (if tms < 1 \<and> \<not> truthy name then (w, Inl TimesError)
      else then_close
        (if truthy name then
           then_reverted
             (umzug_down_migrations [the name] (say [TryingRevertName (the name)] w))
         else if \<not> truthy name \<and> tms > 1 then
           (let w1 = say [TryingRevertLast tms] w;
                executedMigrations = umzug_executed w1;
                rollbackMigrations = take (nat tms) (rev executedMigrations)
            in if length rollbackMigrations > 0 then
                 then_reverted (umzug_down_migrations rollbackMigrations w1)
               else (say [NothingToRevert] w1, Inr ()))
         else if \<not> truthy name \<and> tms = 1 then
           then_reverted (umzug_down (say [TryingRevertLastOne] w))
         else (w, Inr ())))"

text \<open>Lines 210-225.\<close>

definition reset :: "world \<Rightarrow> world \<times> (error + unit)" where
  "reset w = then_close (then_reverted (umzug_down_to_0 (say [TryingRevertAll] w)))"

text \<open>Lines 227-247.\<close>

definition list :: "string \<Rightarrow> world \<Rightarrow> world \<times> (error + unit)" where
  "list status w =
     (let w1 = say [Searching status] w
      in then_close
           (if status = ''executed'' then
              (let migrations = umzug_executed w1
               in (say (ExecutedCount (length migrations) # map Arrow migrations) w1, Inr ()))
            else
              (let migrations = umzug_pending w1
               in (say (PendingCount (length migrations) # map Arrow migrations) w1, Inr ()))))"

text \<open>
  A concrete starting state: the units, the applied names, the units whose \<open>up()\<close>
  throws and the units whose \<open>down()\<close> throws; connection open, nothing run or logged.
\<close>

definition scenario :: "string list \<Rightarrow> string list \<Rightarrow> string list \<Rightarrow> string list \<Rightarrow> world" where
  "scenario us applied bad_up bad_down =
     \<lparr>units = us, up_ok = (\<lambda>n h. n \<notin> set bad_up), down_ok = (\<lambda>n h. n \<notin> set bad_down),
      ops = [], ledger = applied, conn_closed = False, report = []\<rparr>"

section \<open>Properties\<close>

subsection \<open>Logging and closing touch nothing else\<close>

lemma say_sel [simp]:
  "units (say es w) = units w" "up_ok (say es w) = up_ok w" "down_ok (say es w) = down_ok w"
  "ops (say es w) = ops w" "ledger (say es w) = ledger w" "conn_closed (say es w) = conn_closed w"
  "report (say es w) = report w @ es"
  by (simp_all add: say_def)

lemma close_sel [simp]:
  "units (close w) = units w" "up_ok (close w) = up_ok w" "down_ok (close w) = down_ok w"
  "ops (close w) = ops w" "ledger (close w) = ledger w" "conn_closed (close w) = True"
  "report (close w) = report w"
  by (simp_all add: close_def)

lemma umzug_pending_say [simp]: "umzug_pending (say es w) = umzug_pending w"
  by (simp add: umzug_pending_def)

lemma umzug_executed_say [simp]: "umzug_executed (say es w) = umzug_executed w"
  by (simp add: umzug_executed_def)

subsection \<open>What the runner leaves behind\<close>

lemma up_each_Inr:
  "up_each ns w = (w', Inr a) \<Longrightarrow>
     a = ns \<and> w' = w\<lparr>ops := ops w @ map Up ns, ledger := ledger w @ ns\<rparr>"
proof (induction ns arbitrary: w w' a)
  case Nil
  then show ?case by simp
next
  case (Cons n ns)
  let ?w1 = "w\<lparr>ops := ops w @ [Up n], ledger := ledger w @ [n]\<rparr>"
  from Cons.prems obtain b where b: "up_each ns ?w1 = (w', Inr b)" "a = n # b"
    by (auto split: if_splits prod.splits sum.splits)
  from Cons.IH[OF b(1)] b(2) show ?case by simp
qed

lemma up_each_Inl:
  "up_each ns w = (w', Inl e) \<Longrightarrow>
     \<exists>k<length ns. e = UpFailed (ns ! k) \<and>
       w' = w\<lparr>ops := ops w @ map Up (take (Suc k) ns), ledger := ledger w @ take k ns\<rparr>"
proof (induction ns arbitrary: w w' e)
  case Nil
  then show ?case by simp
next
  case (Cons n ns)
  show ?case
  proof (cases "up_ok w n (ops w)")
    case False
    with Cons.prems show ?thesis by (intro exI[of _ 0]) auto
  next
    case True
    let ?w1 = "w\<lparr>ops := ops w @ [Up n], ledger := ledger w @ [n]\<rparr>"
    from True Cons.prems have "up_each ns ?w1 = (w', Inl e)"
      by (auto split: prod.splits sum.splits)
    from Cons.IH[OF this] obtain k where k: "k < length ns" "e = UpFailed (ns ! k)"
      "w' = ?w1\<lparr>ops := ops ?w1 @ map Up (take (Suc k) ns), ledger := ledger ?w1 @ take k ns\<rparr>"
      by blast
    then show ?thesis by (intro exI[of _ "Suc k"]) auto
  qed
qed

lemma down_each_Inr:
  "down_each ns w = (w', Inr a) \<Longrightarrow>
     a = ns \<and> w' = w\<lparr>ops := ops w @ map Down ns, ledger := filter (\<lambda>x. x \<notin> set ns) (ledger w)\<rparr>"
proof (induction ns arbitrary: w w' a)
  case Nil
  then show ?case by simp
next
  case (Cons n ns)
  let ?w1 = "w\<lparr>ops := ops w @ [Down n], ledger := removeAll n (ledger w)\<rparr>"
  from Cons.prems obtain b where b: "down_each ns ?w1 = (w', Inr b)" "a = n # b"
    by (auto split: if_splits prod.splits sum.splits)
  have "filter (\<lambda>x. x \<notin> set ns) (removeAll n l) = filter (\<lambda>x. x \<notin> set (n # ns)) l" for l
    by (induction l) auto
  with Cons.IH[OF b(1)] b(2) show ?case by simp
qed


lemma say_update:
  "(say es w)\<lparr>ops := x\<rparr> = say es (w\<lparr>ops := x\<rparr>)"
  "(say es w)\<lparr>ledger := y\<rparr> = say es (w\<lparr>ledger := y\<rparr>)"
  by (simp_all add: say_def)

lemma up_each_say:
  "up_each ns (say es w) = (case up_each ns w of (w', r) \<Rightarrow> (say es w', r))"
  by (induction ns arbitrary: w) (simp_all add: say_update split: prod.splits sum.splits)

lemma down_each_say:
  "down_each ns (say es w) = (case down_each ns w of (w', r) \<Rightarrow> (say es w', r))"
  by (induction ns arbitrary: w) (simp_all add: say_update split: prod.splits sum.splits)

lemma down_each_Inl:
  "down_each ns w = (w', Inl e) \<Longrightarrow>
     \<exists>k<length ns.
       (e = DownFailed (ns ! k) \<and> ops w' = ops w @ map Down (take (Suc k) ns) \<or>
        e = NotApplied (ns ! k) \<and> ns ! k \<notin> set (filter (\<lambda>x. x \<notin> set (take k ns)) (ledger w)) \<and>
          ops w' = ops w @ map Down (take k ns)) \<and>
       ledger w' = filter (\<lambda>x. x \<notin> set (take k ns)) (ledger w) \<and>
       units w' = units w \<and> up_ok w' = up_ok w \<and> down_ok w' = down_ok w \<and>
       conn_closed w' = conn_closed w \<and> report w' = report w"
proof (induction ns arbitrary: w w' e)
  case Nil
  then show ?case by simp
next
  case (Cons n ns)
  show ?case
  proof (cases "n \<in> set (ledger w) \<and> down_ok w n (ops w)")
    case False
    with Cons.prems show ?thesis by (intro exI[of _ 0]) (auto split: if_splits)
  next
    case True
    let ?w1 = "w\<lparr>ops := ops w @ [Down n], ledger := removeAll n (ledger w)\<rparr>"
    from True Cons.prems have "down_each ns ?w1 = (w', Inl e)"
      by (auto split: prod.splits sum.splits)
    from Cons.IH[OF this] obtain k where k: "k < length ns"
      "e = DownFailed (ns ! k) \<and> ops w' = ops ?w1 @ map Down (take (Suc k) ns) \<or>
        e = NotApplied (ns ! k) \<and> ns ! k \<notin> set (filter (\<lambda>x. x \<notin> set (take k ns)) (ledger ?w1)) \<and>
          ops w' = ops ?w1 @ map Down (take k ns)"
      "ledger w' = filter (\<lambda>x. x \<notin> set (take k ns)) (ledger ?w1)"
      "units w' = units ?w1" "up_ok w' = up_ok ?w1" "down_ok w' = down_ok ?w1"
      "conn_closed w' = conn_closed ?w1" "report w' = report ?w1"
      by blast
    have "filter (\<lambda>x. x \<notin> set (take k ns)) (removeAll n l) =
          filter (\<lambda>x. x \<notin> set (take (Suc k) (n # ns))) l" for l
      by (induction l) auto
    with k show ?thesis by (intro exI[of _ "Suc k"]) auto
  qed
qed

lemma down_each_applied:
  assumes "down_each ns w = (w', Inl e)" "distinct ns" "set ns \<subseteq> set (ledger w)"
  shows "\<exists>n. e = DownFailed n"
proof -
  from down_each_Inl[OF assms(1)] obtain k where k: "k < length ns"
    "e = DownFailed (ns ! k) \<or>
       e = NotApplied (ns ! k) \<and> ns ! k \<notin> set (filter (\<lambda>x. x \<notin> set (take k ns)) (ledger w))"
    by blast
  from k(1) assms(2) have "ns ! k \<notin> set (take k ns)"
    by (auto simp: in_set_conv_nth distinct_conv_nth)
  moreover from k(1) assms(3) have "ns ! k \<in> set (ledger w)" by auto
  ultimately show ?thesis using k(2) by auto
qed

lemma down_each_DownFailed:
  "down_each ns w = (w', Inl (DownFailed m)) \<Longrightarrow>
     \<exists>k<length ns. m = ns ! k \<and> \<not> down_ok w (ns ! k) (ops w @ map Down (take k ns))"
proof (induction ns arbitrary: w w')
  case Nil
  then show ?case by simp
next
  case (Cons n ns)
  show ?case
  proof (cases "n \<in> set (ledger w) \<and> down_ok w n (ops w)")
    case False
    with Cons.prems show ?thesis by (intro exI[of _ 0]) (auto split: if_splits)
  next
    case True
    let ?w1 = "w\<lparr>ops := ops w @ [Down n], ledger := removeAll n (ledger w)\<rparr>"
    from True Cons.prems have "down_each ns ?w1 = (w', Inl (DownFailed m))"
      by (auto split: prod.splits sum.splits)
    from Cons.IH[OF this] obtain k where k: "k < length ns" "m = ns ! k"
      "\<not> down_ok ?w1 (ns ! k) (ops ?w1 @ map Down (take k ns))"
      by blast
    then show ?thesis by (intro exI[of _ "Suc k"]) auto
  qed
qed


lemma filter_take_distinct:
  "distinct xs \<Longrightarrow> filter (\<lambda>p. p \<in> set (take k xs)) xs = take k xs"
proof (induction xs arbitrary: k)
  case Nil
  then show ?case by simp
next
  case (Cons x xs)
  show ?case
  proof (cases k)
    case 0
    then show ?thesis by simp
  next
    case (Suc j)
    from Cons.prems have "x \<notin> set xs" "distinct xs" by auto
    then have "filter (\<lambda>p. p = x \<or> p \<in> set (take j xs)) xs = filter (\<lambda>p. p \<in> set (take j xs)) xs"
      by (intro filter_cong) auto
    with Cons.IH[OF \<open>distinct xs\<close>, of j] Suc show ?thesis by simp
  qed
qed


subsection \<open>A failing \<open>migrate\<close>\<close>

lemma say_say: "say es (say fs w) = say (fs @ es) w"
  by (simp add: say_def)

lemma down_each_frame:
  assumes "down_each ns w = (w', r)"
  shows "units w' = units w \<and> up_ok w' = up_ok w \<and> down_ok w' = down_ok w \<and>
         conn_closed w' = conn_closed w \<and> report w' = report w"
proof (cases r)
  case (Inl e)
  with down_each_Inl[of ns w w' e] assms show ?thesis by auto
next
  case (Inr a)
  with down_each_Inr[of ns w w' a] assms show ?thesis by auto
qed

lemma up_each_frame:
  assumes "up_each ns w = (w', r)"
  shows "units w' = units w \<and> up_ok w' = up_ok w \<and> down_ok w' = down_ok w \<and>
         conn_closed w' = conn_closed w \<and> report w' = report w"
proof (cases r)
  case (Inl e)
  with up_each_Inl[of ns w w' e] assms show ?thesis by auto
next
  case (Inr a)
  with up_each_Inr[of ns w w' a] assms show ?thesis by auto
qed

lemma umzug_pending_distinct: "distinct (units w) \<Longrightarrow> distinct (umzug_pending w)"
  by (simp add: umzug_pending_def)

lemma umzug_pending_not_applied: "p \<in> set (umzug_pending w) \<Longrightarrow> p \<notin> set (ledger w)"
  by (simp add: umzug_pending_def)

lemma up_failed:
  assumes "distinct (units w)" and "umzug_up w = (wa, Inl e)"
  shows "\<exists>k<length (umzug_pending w).
           e = UpFailed (umzug_pending w ! k) \<and>
           wa = w\<lparr>ops := ops w @ map Up (take (Suc k) (umzug_pending w)),
                  ledger := ledger w @ take k (umzug_pending w)\<rparr> \<and>
           executedFromPending (umzug_pending w) (umzug_executed wa) = take k (umzug_pending w)"
proof -
  let ?pend = "umzug_pending w"
  from assms(2) have "up_each ?pend w = (wa, Inl e)" by (simp add: umzug_up_def)
  from up_each_Inl[OF this] obtain k where k: "k < length ?pend" "e = UpFailed (?pend ! k)"
    "wa = w\<lparr>ops := ops w @ map Up (take (Suc k) ?pend), ledger := ledger w @ take k ?pend\<rparr>"
    by blast
  have "filter (\<lambda>p. p \<in> set (ledger w @ take k ?pend)) ?pend =
        filter (\<lambda>p. p \<in> set (take k ?pend)) ?pend"
    by (rule filter_cong) (auto dest: umzug_pending_not_applied)
  also have "\<dots> = take k ?pend"
    by (rule filter_take_distinct) (rule umzug_pending_distinct[OF assms(1)])
  finally have "executedFromPending ?pend (umzug_executed wa) = take k ?pend"
    using k(3) by (simp add: executedFromPending_def umzug_executed_def)
  with k show ?thesis by blast
qed

lemma migrate_up_failed:
  assumes "umzug_up w = (wa, Inl e)"
  shows "migrate r w =
           (case migrate_catch r (umzug_pending w) (say [LookingForPending, ApplyingPending] wa) of
              (w3, Inl e') \<Rightarrow> (w3, Inl e')
            | (w3, Inr u) \<Rightarrow> (close w3, Inr False))"
proof -
  from assms have ne: "umzug_pending w \<noteq> []"
    by (auto simp: umzug_up_def)
  from assms have "umzug_up (say [ApplyingPending] (say [LookingForPending] w)) =
      (say [LookingForPending, ApplyingPending] wa, Inl e)"
    by (simp add: umzug_up_def up_each_say say_say)
  with ne show ?thesis
    by (simp add: migrate_def then_close_def split: prod.splits sum.splits)
qed

lemma migrate_catch_report:
  "\<exists>rest. report (fst (migrate_catch r pend w)) =
     report w @ [ErrorApplying, LookingForProblem,
       SomethingWrong (js_index pend (length (executedFromPending pend (umzug_executed w))))] @ rest"
proof (cases "r \<and> executedFromPending pend (umzug_executed w) \<noteq> []")
  case False
  then show ?thesis
    by (auto simp: migrate_catch_def Let_def)
next
  case True
  let ?efp = "executedFromPending pend (umzug_executed w)"
  let ?w2 = "say [RevertingApplied] (say [SomethingWrong (js_index pend (length ?efp))]
               (say [ErrorApplying, LookingForProblem] w))"
  obtain w3 res where d: "down_each ?efp ?w2 = (w3, res)" by (cases "down_each ?efp ?w2")
  from down_each_frame[OF d] have "report w3 = report ?w2" by simp
  with True d show ?thesis
    by (cases res) (auto simp: migrate_catch_def Let_def umzug_down_migrations_def)
qed

lemma migrate_failed_report:
  assumes "umzug_up w = (wa, Inl e)"
  shows "\<exists>rest. report (fst (migrate r w)) =
     report w @ [LookingForPending, ApplyingPending, ErrorApplying, LookingForProblem,
       SomethingWrong (js_index (umzug_pending w)
         (length (executedFromPending (umzug_pending w) (umzug_executed wa))))] @ rest"
proof -
  let ?w1 = "say [LookingForPending, ApplyingPending] wa"
  from assms have "report wa = report w"
    using up_each_frame[of "umzug_pending w" w wa "Inl e"] by (simp add: umzug_up_def)
  moreover obtain rest where "report (fst (migrate_catch r (umzug_pending w) ?w1)) =
     report ?w1 @ [ErrorApplying, LookingForProblem,
       SomethingWrong (js_index (umzug_pending w)
         (length (executedFromPending (umzug_pending w) (umzug_executed ?w1))))] @ rest"
    using migrate_catch_report by blast
  ultimately show ?thesis
    by (auto simp: migrate_up_failed[OF assms] split: prod.splits sum.splits)
qed

lemma migrate_no_revert:
  assumes "umzug_up w = (wa, Inl e)"
  shows "snd (migrate False w) = Inr False \<and> ops (fst (migrate False w)) = ops wa \<and>
         ledger (fst (migrate False w)) = ledger wa"
  by (simp add: migrate_up_failed[OF assms] migrate_catch_def Let_def)

lemma filter_committed:
  assumes "set c \<subseteq> set (umzug_pending w)"
  shows "filter (\<lambda>x. x \<notin> set c) (ledger w @ c) = ledger w"
proof -
  have "filter (\<lambda>x. x \<notin> set c) (ledger w) = ledger w"
    using assms by (auto simp: filter_id_conv dest: umzug_pending_not_applied)
  then show ?thesis by simp
qed

lemma migrate_revert:
  assumes "distinct (units w)" and "umzug_up w = (wa, Inl e)"
  shows "(\<exists>n. snd (migrate True w) = Inl (DownFailed n)) \<or>
         snd (migrate True w) = Inr False \<and>
         ops (fst (migrate True w)) =
           ops wa @ map Down (executedFromPending (umzug_pending w) (umzug_executed wa)) \<and>
         ledger (fst (migrate True w)) = ledger w"
proof -
  let ?pend = "umzug_pending w"
  let ?w0 = "say [LookingForPending, ApplyingPending] wa"
  from up_failed[OF assms] obtain k where k: "k < length ?pend"
    "wa = w\<lparr>ops := ops w @ map Up (take (Suc k) ?pend), ledger := ledger w @ take k ?pend\<rparr>"
    "executedFromPending ?pend (umzug_executed wa) = take k ?pend"
    by blast
  let ?efp = "take k ?pend"
  show ?thesis
  proof (cases k)
    case 0
    with k show ?thesis
      by (simp add: migrate_up_failed[OF assms(2)] migrate_catch_def Let_def)
  next
    case (Suc j)
    obtain w3 res where d: "down_each ?efp wa = (w3, res)" by (cases "down_each ?efp wa")
    have c: "migrate_catch True ?pend ?w0 =
      (case res of
         Inl e' \<Rightarrow> (say [LookingForPending, ApplyingPending, ErrorApplying, LookingForProblem,
                     SomethingWrong (js_index ?pend (length ?efp)), RevertingApplied] w3, Inl e')
       | Inr reverted \<Rightarrow> (say ([LookingForPending, ApplyingPending, ErrorApplying, LookingForProblem,
                     SomethingWrong (js_index ?pend (length ?efp)), RevertingApplied] @
                     map ArrowReverted reverted) w3, Inr ()))"
      using Suc k(1) d
      by (auto simp add: migrate_catch_def Let_def k(3) umzug_down_migrations_def say_say down_each_say
          split: sum.splits)
    show ?thesis
    proof (cases res)
      case (Inl e')
      have "distinct ?efp" using umzug_pending_distinct[OF assms(1)] by simp
      moreover have "set ?efp \<subseteq> set (ledger wa)" using k(2) by simp
      ultimately obtain n where "e' = DownFailed n"
        using down_each_applied[of ?efp wa w3 e'] d Inl by blast
      with Inl c show ?thesis
        by (simp add: migrate_up_failed[OF assms(2)])
    next
      case (Inr reverted)
      from down_each_Inr[of ?efp wa w3 reverted] d Inr
      have w3: "ops w3 = ops wa @ map Down ?efp"
        "ledger w3 = filter (\<lambda>x. x \<notin> set ?efp) (ledger wa)"
        by simp_all
      have "set ?efp \<subseteq> set ?pend" by (rule set_take_subset)
      from filter_committed[OF this] k(2) w3(2) have "ledger w3 = ledger w" by simp
      with Inr c w3(1) k(3) show ?thesis
        by (simp add: migrate_up_failed[OF assms(2)])
    qed
  qed
qed


lemma migrate_revert_rejects:
  assumes "distinct (units w)" and "umzug_up w = (wa, Inl e)"
    and "snd (migrate True w) = Inl e'"
  shows "\<exists>k<length (executedFromPending (umzug_pending w) (umzug_executed wa)).
           e' = DownFailed (executedFromPending (umzug_pending w) (umzug_executed wa) ! k) \<and>
           \<not> down_ok w (executedFromPending (umzug_pending w) (umzug_executed wa) ! k)
               (ops wa @
                map Down (take k (executedFromPending (umzug_pending w) (umzug_executed wa))))"
proof -
  let ?pend = "umzug_pending w"
  let ?w0 = "say [LookingForPending, ApplyingPending] wa"
  from up_failed[OF assms(1,2)] obtain k where k: "k < length ?pend"
    "wa = w\<lparr>ops := ops w @ map Up (take (Suc k) ?pend), ledger := ledger w @ take k ?pend\<rparr>"
    "executedFromPending ?pend (umzug_executed wa) = take k ?pend"
    by blast
  let ?efp = "take k ?pend"
  from k(2) have dk: "down_ok wa = down_ok w" by simp
  show ?thesis
  proof (cases k)
    case 0
    with k assms(3) show ?thesis
      by (simp add: migrate_up_failed[OF assms(2)] migrate_catch_def Let_def)
  next
    case (Suc j)
    obtain w3 res where d: "down_each ?efp wa = (w3, res)" by (cases "down_each ?efp wa")
    have c: "snd (migrate_catch True ?pend ?w0) = (case res of Inl x \<Rightarrow> Inl x | Inr y \<Rightarrow> Inr ())"
      using Suc k(1) d
      by (auto simp add: migrate_catch_def Let_def k(3) umzug_down_migrations_def say_say
          down_each_say split: sum.splits)
    from assms(3) c have res: "res = Inl e'"
      by (auto simp: migrate_up_failed[OF assms(2)] split: prod.splits sum.splits)
    have "distinct ?efp" using umzug_pending_distinct[OF assms(1)] by simp
    moreover have "set ?efp \<subseteq> set (ledger wa)" using k(2) by simp
    ultimately obtain m where m: "e' = DownFailed m"
      using down_each_applied[of ?efp wa w3 e'] d res by blast
    from down_each_DownFailed[of ?efp wa w3 m] d res m obtain i where
      "i < length ?efp" "m = ?efp ! i" "\<not> down_ok wa (?efp ! i) (ops wa @ map Down (take i ?efp))"
      by blast
    with m dk show ?thesis unfolding k(3) by auto
  qed
qed

lemma migrate_revert_succeeds:
  assumes "distinct (units w)" and "umzug_up w = (wa, Inl e)"
    and "\<forall>n\<in>set (executedFromPending (umzug_pending w) (umzug_executed wa)). \<forall>h. down_ok w n h"
  shows "snd (migrate True w) = Inr False \<and>
         ops (fst (migrate True w)) =
           ops wa @ map Down (executedFromPending (umzug_pending w) (umzug_executed wa)) \<and>
         ledger (fst (migrate True w)) = ledger w"
proof -
  let ?efp = "executedFromPending (umzug_pending w) (umzug_executed wa)"
  have "\<not> (\<exists>n. snd (migrate True w) = Inl (DownFailed n))"
  proof
    assume "\<exists>n. snd (migrate True w) = Inl (DownFailed n)"
    then obtain n where "snd (migrate True w) = Inl (DownFailed n)" by blast
    from migrate_revert_rejects[OF assms(1,2) this] obtain k where
      "k < length ?efp" "\<not> down_ok w (?efp ! k) (ops wa @ map Down (take k ?efp))"
      by blast
    with assms(3) show False by (meson nth_mem)
  qed
  with migrate_revert[OF assms(1,2)] show ?thesis by blast
qed

subsection \<open>The connection\<close>

lemma then_close_Inr: "snd (then_close r) = Inr v \<Longrightarrow> conn_closed (fst (then_close r))"
  by (auto simp: then_close_def split: prod.splits sum.splits)

lemma then_close_Inl:
  "snd (then_close r) = Inl e \<Longrightarrow> conn_closed (fst (then_close r)) = conn_closed (fst r)"
  by (auto simp: then_close_def split: prod.splits sum.splits)

lemma then_reverted_conn [simp]: "conn_closed (fst (then_reverted r)) = conn_closed (fst r)"
  by (auto simp: then_reverted_def split: prod.splits sum.splits)

lemma down_each_conn [simp]: "conn_closed (fst (down_each ns w)) = conn_closed w"
  using down_each_frame[of ns w "fst (down_each ns w)" "snd (down_each ns w)"] by simp

lemma up_each_conn [simp]: "conn_closed (fst (up_each ns w)) = conn_closed w"
  using up_each_frame[of ns w "fst (up_each ns w)" "snd (up_each ns w)"] by simp

lemma migrate_catch_conn [simp]: "conn_closed (fst (migrate_catch r p w)) = conn_closed w"
proof -
  have "conn_closed (fst (case down_each ns v of
            (w3, Inl e) \<Rightarrow> (w3, Inl e)
          | (w3, Inr revertedMigrations) \<Rightarrow>
              (say (map ArrowReverted revertedMigrations) w3, Inr ()))) =
        conn_closed v" for ns v
    using down_each_frame[of ns v] by (cases "down_each ns v") (auto split: sum.splits)
  then show ?thesis
    by (simp add: migrate_catch_def umzug_down_migrations_def Let_def)
qed

lemma migrate_body_conn:
  "conn_closed (fst (case umzug_up v of
      (w2, Inr appliedMigrations) \<Rightarrow>
        (say (AppliedCount (length appliedMigrations) # map Arrow appliedMigrations) w2, Inr True)
    | (w2, Inl x) \<Rightarrow>
        (case migrate_catch r p w2 of
           (w3, Inl e) \<Rightarrow> (w3, Inl e)
         | (w3, Inr y) \<Rightarrow> (w3, Inr False)))) = conn_closed v"
proof -
  obtain w2 res where u: "umzug_up v = (w2, res)" by (cases "umzug_up v")
  then have c: "conn_closed w2 = conn_closed v"
    using up_each_conn[of "umzug_pending v" v] by (simp add: umzug_up_def)
  obtain w3 res' where m: "migrate_catch r p w2 = (w3, res')" by (cases "migrate_catch r p w2")
  then have "conn_closed w3 = conn_closed w2"
    using migrate_catch_conn[of r p w2] by simp
  with u c m show ?thesis by (simp split: sum.splits)
qed

subsection \<open>Evaluation of concrete runs\<close>

lemmas run_simps = scenario_def migrate_def migrate_catch_def umzug_up_def umzug_pending_def
  umzug_executed_def umzug_down_migrations_def umzug_down_def umzug_down_to_0_def
  executedFromPending_def js_index_def say_def close_def Let_def
  then_close_def then_reverted_def revert_def truthy_def reset_def list_def

section \<open>The claims\<close>

text \<open>
  A failing run of \<open>migrate\<close> from the state \<open>w\<close> is one in which \<open>umzug.up()\<close> rejects:
  \<open>umzug_up w = (wa, Inl e)\<close>, with \<open>wa\<close> the state the rejected call leaves (what was run
  and what the ledger holds at the failure). The lines logged before the call do not
  change its course (\<open>up_each_say\<close>).
\<close>

text \<open>
  Claim C1. Whenever \<open>umzug.up()\<close> rejects, the line "Something wrong with ..." that
  \<open>migrate\<close> logs after the two diagnosis lines names the broken migration as follows.
  With \<open>committedBeforeFailure\<close> the pending names that the ledger lists when it is
  queried again after the failure: if it is not empty, the migration named is the pending
  name that immediately follows the last element of \<open>committedBeforeFailure\<close> in the
  pending names; if it is empty, it is the first pending name. Unit names are file names
  of one directory, hence distinct.
\<close>

theorem migrate_firstBrokenName:
  assumes "distinct (units w)" and "umzug_up w = (wa, Inl e)"
  shows "\<exists>broken rest.
           report (fst (migrate revertError w)) =
             report w @ [LookingForPending, ApplyingPending, ErrorApplying, LookingForProblem,
                         SomethingWrong (Some broken)] @ rest \<and>
           (let pendingNames = umzug_pending w;
                committedBeforeFailure = executedFromPending pendingNames (umzug_executed wa)
            in if committedBeforeFailure = [] then pendingNames \<noteq> [] \<and> broken = hd pendingNames
               else \<exists>i. Suc i < length pendingNames \<and>
                      pendingNames ! i = last committedBeforeFailure \<and>
                      broken = pendingNames ! Suc i)"
proof -
  let ?pend = "umzug_pending w"
  from up_failed[OF assms] obtain k where k: "k < length ?pend"
    "executedFromPending ?pend (umzug_executed wa) = take k ?pend"
    by blast
  from migrate_failed_report[OF assms(2), of revertError] k obtain rest where
    rest: "report (fst (migrate revertError w)) =
      report w @ [LookingForPending, ApplyingPending, ErrorApplying, LookingForProblem,
        SomethingWrong (Some (?pend ! k))] @ rest"
    by (auto simp: js_index_def)
  show ?thesis
  proof (cases k)
    case 0
    with k rest show ?thesis
      by (intro exI[of _ "?pend ! 0"] exI[of _ rest]) (auto simp: hd_conv_nth)
  next
    case (Suc i)
    with k have "take k ?pend \<noteq> []" "last (take k ?pend) = ?pend ! i"
      by (simp_all add: take_Suc_conv_app_nth)
    with k rest Suc show ?thesis
      by (intro exI[of _ "?pend ! k"] exI[of _ rest]) (auto simp: Let_def)
  qed
qed


theorem migrate_firstBrokenName_witness:
  "distinct (units (scenario [''001_a'', ''002_b'', ''003_c''] [] [''003_c''] [])) \<and>
   snd (umzug_up (scenario [''001_a'', ''002_b'', ''003_c''] [] [''003_c''] [])) =
     Inl (UpFailed ''003_c'') \<and>
   executedFromPending
     (umzug_pending (scenario [''001_a'', ''002_b'', ''003_c''] [] [''003_c''] []))
     (umzug_executed (fst (umzug_up (scenario [''001_a'', ''002_b'', ''003_c''] [] [''003_c''] []))))
     = [''001_a'', ''002_b''] \<and>
   report (fst (migrate False (scenario [''001_a'', ''002_b'', ''003_c''] [] [''003_c''] []))) =
     [LookingForPending, ApplyingPending, ErrorApplying, LookingForProblem,
      SomethingWrong (Some ''003_c'')]"
proof -
  let ?w = "scenario [''001_a'', ''002_b'', ''003_c''] [] [''003_c''] []"
  have d: "distinct (units ?w)" by (simp add: scenario_def)
  have u: "umzug_up ?w = (fst (umzug_up ?w), Inl (UpFailed ''003_c''))"
    by (simp add: run_simps)
  have r: "report (fst (migrate False ?w)) =
     [LookingForPending, ApplyingPending, ErrorApplying, LookingForProblem,
      SomethingWrong (Some ''003_c'')]"
    by (simp add: run_simps)
  from migrate_firstBrokenName[OF d u, of False] show ?thesis
    using d u r by (simp add: run_simps)
qed


text \<open>
  Claim C9. In the failure branch of \<open>migrate\<close> the index \<open>executedFromPending.length\<close> is
  strictly below \<open>pendingMigrations.length\<close>: some pending migration is not in the ledger
  after the failure, and the read \<open>pendingMigrations[executedFromPending.length]\<close> that
  names the broken migration in the log is in range (it is never \<open>undefined\<close>). This
  holds whether or not \<open>executedFromPending\<close> is empty.
\<close>

theorem migrate_broken_index_in_bounds:
  assumes "distinct (units w)" and "umzug_up w = (wa, Inl e)"
  shows "length (executedFromPending (umzug_pending w) (umzug_executed wa))
           < length (umzug_pending w) \<and>
         (\<exists>p. p \<in> set (umzug_pending w) \<and> p \<notin> set (umzug_executed wa)) \<and>
         js_index (umzug_pending w)
             (length (executedFromPending (umzug_pending w) (umzug_executed wa))) =
           Some (umzug_pending w !
             length (executedFromPending (umzug_pending w) (umzug_executed wa))) \<and>
         (\<exists>rest. report (fst (migrate revertError w)) =
            report w @ [LookingForPending, ApplyingPending, ErrorApplying, LookingForProblem,
              SomethingWrong (js_index (umzug_pending w)
                (length (executedFromPending (umzug_pending w) (umzug_executed wa))))] @ rest)"
proof -
  let ?pend = "umzug_pending w"
  from up_failed[OF assms] obtain k where k: "k < length ?pend"
    "wa = w\<lparr>ops := ops w @ map Up (take (Suc k) ?pend), ledger := ledger w @ take k ?pend\<rparr>"
    "executedFromPending ?pend (umzug_executed wa) = take k ?pend"
    by blast
  from k(1) have len: "length (take k ?pend) < length ?pend" by simp
  from k(1) umzug_pending_distinct[OF assms(1)] have "?pend ! k \<notin> set (take k ?pend)"
    by (auto simp: in_set_conv_nth distinct_conv_nth)
  moreover from k(1) have "?pend ! k \<notin> set (ledger w)"
    by (simp add: umzug_pending_not_applied)
  ultimately have "?pend ! k \<in> set ?pend \<and> ?pend ! k \<notin> set (umzug_executed wa)"
    using k(1,2) by (simp add: umzug_executed_def)
  then have missing: "\<exists>p. p \<in> set ?pend \<and> p \<notin> set (umzug_executed wa)" by blast
  from len have idx: "js_index ?pend (length (take k ?pend)) = Some (?pend ! length (take k ?pend))"
    by (simp add: js_index_def)
  from len missing idx migrate_failed_report[OF assms(2), of revertError] show ?thesis
    unfolding k(3) by blast
qed

theorem migrate_broken_index_in_bounds_witness:
  "distinct (units (scenario [''001_a'', ''002_b'', ''003_c''] [] [''002_b''] [])) \<and>
   snd (umzug_up (scenario [''001_a'', ''002_b'', ''003_c''] [] [''002_b''] [])) =
     Inl (UpFailed ''002_b'') \<and>
   length (executedFromPending
     (umzug_pending (scenario [''001_a'', ''002_b'', ''003_c''] [] [''002_b''] []))
     (umzug_executed (fst (umzug_up (scenario [''001_a'', ''002_b'', ''003_c''] [] [''002_b''] [])))))
     = 1 \<and>
   length (umzug_pending (scenario [''001_a'', ''002_b'', ''003_c''] [] [''002_b''] [])) = 3 \<and>
   report (fst (migrate True (scenario [''001_a'', ''002_b'', ''003_c''] [] [''002_b''] []))) =
     [LookingForPending, ApplyingPending, ErrorApplying, LookingForProblem,
      SomethingWrong (Some ''002_b''), RevertingApplied, ArrowReverted ''001_a'']"
proof -
  let ?w = "scenario [''001_a'', ''002_b'', ''003_c''] [] [''002_b''] []"
  have d: "distinct (units ?w)" by (simp add: scenario_def)
  have u: "umzug_up ?w = (fst (umzug_up ?w), Inl (UpFailed ''002_b''))"
    by (simp add: run_simps)
  have r: "report (fst (migrate True ?w)) =
     [LookingForPending, ApplyingPending, ErrorApplying, LookingForProblem,
      SomethingWrong (Some ''002_b''), RevertingApplied, ArrowReverted ''001_a'']"
    by (simp add: run_simps)
  from migrate_broken_index_in_bounds[OF d u, of True] show ?thesis
    using d u r by (simp add: run_simps)
qed




text \<open>
  Claim C3, as stated, fails: with auto-revert enabled, \<open>002_b.up()\<close> throws and then,
  during the revert of the committed \<open>001_a\<close>, \<open>001_a.down()\<close> throws. That error leaves
  \<open>migrate\<close>: the call rejects instead of returning \<open>false\<close>.
\<close>

theorem migrate_throws_counterexample:
  "snd (umzug_up (scenario [''001_a'', ''002_b''] [] [''002_b''] [''001_a''])) =
     Inl (UpFailed ''002_b'') \<and>
   snd (migrate True (scenario [''001_a'', ''002_b''] [] [''002_b''] [''001_a''])) =
     Inl (DownFailed ''001_a'')"
  by (simp add: run_simps)

text \<open>
  Claim C3, amended. For every input on which a pending unit's \<open>up()\<close> fails, \<open>migrate\<close>
  catches that error locally and never returns \<open>true\<close>. It returns \<open>false\<close> whenever
  auto-revert is disabled, and whenever auto-revert is enabled and the \<open>down()\<close> of every
  unit of \<open>committedBeforeFailure\<close> succeeds. The only error that leaves \<open>migrate\<close> is
  that of a \<open>down()\<close> which the auto-revert ran on a unit of \<open>committedBeforeFailure\<close> and
  which failed there (after the \<open>down()\<close> of the committed units before it). Without
  auto-revert nothing is reverted; with it, and every such \<open>down()\<close> succeeding, the
  ledger is back to what it was before the run. In every
  case the diagnosis is logged: "Error while applying migrations", "Looking for migration
  that has problems..." and "Something wrong with" the broken migration.
\<close>

theorem migrate_catches_up_failure:
  assumes "distinct (units w)" and "umzug_up w = (wa, Inl e)"
  shows "(\<not> revertError \<or>
            (\<forall>n\<in>set (executedFromPending (umzug_pending w) (umzug_executed wa)).
               \<forall>h. down_ok w n h) \<longrightarrow>
          snd (migrate revertError w) = Inr False) \<and>
         (\<forall>e'. snd (migrate revertError w) = Inl e' \<longrightarrow>
            revertError \<and>
            (\<exists>k<length (executedFromPending (umzug_pending w) (umzug_executed wa)).
               e' = DownFailed (executedFromPending (umzug_pending w) (umzug_executed wa) ! k) \<and>
               \<not> down_ok w (executedFromPending (umzug_pending w) (umzug_executed wa) ! k)
                   (ops wa @ map Down
                      (take k (executedFromPending (umzug_pending w) (umzug_executed wa)))))) \<and>
         snd (migrate revertError w) \<noteq> Inr True \<and>
         (\<not> revertError \<longrightarrow>
            ops (fst (migrate revertError w)) = ops wa \<and>
            ledger (fst (migrate revertError w)) = ledger wa) \<and>
         (revertError \<and>
            (\<forall>n\<in>set (executedFromPending (umzug_pending w) (umzug_executed wa)).
               \<forall>h. down_ok w n h) \<longrightarrow>
            ledger (fst (migrate revertError w)) = ledger w) \<and>
         (\<exists>rest. report (fst (migrate revertError w)) =
            report w @ [LookingForPending, ApplyingPending, ErrorApplying, LookingForProblem,
              SomethingWrong (js_index (umzug_pending w)
                (length (executedFromPending (umzug_pending w) (umzug_executed wa))))] @ rest)"
proof (cases revertError)
  case False
  with migrate_no_revert[OF assms(2)] migrate_failed_report[OF assms(2), of revertError]
  show ?thesis by simp
next
  case True
  have a: "(\<forall>n\<in>set (executedFromPending (umzug_pending w) (umzug_executed wa)).
               \<forall>h. down_ok w n h) \<longrightarrow>
            snd (migrate True w) = Inr False \<and> ledger (fst (migrate True w)) = ledger w"
    using migrate_revert_succeeds[OF assms] by blast
  have b: "snd (migrate True w) \<noteq> Inr True"
    using migrate_revert[OF assms] by auto
  have c: "\<forall>e'. snd (migrate True w) = Inl e' \<longrightarrow>
            (\<exists>k<length (executedFromPending (umzug_pending w) (umzug_executed wa)).
               e' = DownFailed (executedFromPending (umzug_pending w) (umzug_executed wa) ! k) \<and>
               \<not> down_ok w (executedFromPending (umzug_pending w) (umzug_executed wa) ! k)
                   (ops wa @ map Down
                      (take k (executedFromPending (umzug_pending w) (umzug_executed wa)))))"
    using migrate_revert_rejects[OF assms] by blast
  from True a b c migrate_failed_report[OF assms(2), of revertError] show ?thesis by simp
qed

theorem migrate_catches_up_failure_witness:
  "distinct (units (scenario [''001_a'', ''002_b'', ''003_c''] [] [''002_b''] [])) \<and>
   snd (umzug_up (scenario [''001_a'', ''002_b'', ''003_c''] [] [''002_b''] [])) =
     Inl (UpFailed ''002_b'') \<and>
   executedFromPending
     (umzug_pending (scenario [''001_a'', ''002_b'', ''003_c''] [] [''002_b''] []))
     (umzug_executed (fst (umzug_up (scenario [''001_a'', ''002_b'', ''003_c''] [] [''002_b''] []))))
     = [''001_a''] \<and>
   (\<forall>h. down_ok (scenario [''001_a'', ''002_b'', ''003_c''] [] [''002_b''] []) ''001_a'' h) \<and>
   snd (migrate True (scenario [''001_a'', ''002_b'', ''003_c''] [] [''002_b''] [])) = Inr False \<and>
   snd (migrate False (scenario [''001_a'', ''002_b'', ''003_c''] [] [''002_b''] [])) = Inr False \<and>
   ledger (fst (migrate True (scenario [''001_a'', ''002_b'', ''003_c''] [] [''002_b''] []))) = [] \<and>
   ledger (fst (migrate False (scenario [''001_a'', ''002_b'', ''003_c''] [] [''002_b''] []))) =
     [''001_a''] \<and>
   report (fst (migrate False (scenario [''001_a'', ''002_b'', ''003_c''] [] [''002_b''] []))) =
     [LookingForPending, ApplyingPending, ErrorApplying, LookingForProblem,
      SomethingWrong (Some ''002_b'')]"
proof -
  let ?w = "scenario [''001_a'', ''002_b'', ''003_c''] [] [''002_b''] []"
  have d: "distinct (units ?w)" by (simp add: scenario_def)
  have u: "umzug_up ?w = (fst (umzug_up ?w), Inl (UpFailed ''002_b''))"
    by (simp add: run_simps)
  have s: "snd (umzug_up ?w) = Inl (UpFailed ''002_b'')"
    by (simp add: run_simps)
  have c: "executedFromPending (umzug_pending ?w) (umzug_executed (fst (umzug_up ?w))) = [''001_a'']"
    by (simp add: run_simps)
  have k: "\<forall>h. down_ok ?w ''001_a'' h" by (simp add: scenario_def)
  have r: "report (fst (migrate False ?w)) =
     [LookingForPending, ApplyingPending, ErrorApplying, LookingForProblem,
      SomethingWrong (Some ''002_b'')]"
    by (simp add: run_simps)
  have l: "ledger (fst (migrate True ?w)) = []" "ledger (fst (migrate False ?w)) = [''001_a'']"
    by (simp_all add: run_simps)
  from migrate_catches_up_failure[OF d u, of True] migrate_catches_up_failure[OF d u, of False]
  show ?thesis
    using d s c k r l by simp
qed

text \<open>
  Claim C4, as stated, fails: no operation releases the connection when it ends with an
  error. \<open>revert(0)\<close> throws its validation error and \<open>reset\<close> rejects with the error of
  a failing \<open>down()\<close>; in both the call to \<open>this.sequelize.close()\<close>, the last statement
  of the method, is never reached.
\<close>

theorem close_on_error_counterexample:
  "snd (revert 0 None (scenario [''001_a''] [''001_a''] [] [])) = Inl TimesError \<and>
   \<not> conn_closed (fst (revert 0 None (scenario [''001_a''] [''001_a''] [] []))) \<and>
   snd (reset (scenario [''001_a''] [''001_a''] [] [''001_a''])) = Inl (DownFailed ''001_a'') \<and>
   \<not> conn_closed (fst (reset (scenario [''001_a''] [''001_a''] [] [''001_a''])))"
  by (simp add: run_simps)

text \<open>
  Claim C4, amended. Every public operation (\<open>migrate\<close>, \<open>revert\<close>, \<open>reset\<close>, \<open>list\<close>)
  closes the database connection on every exit path on which it returns normally; for
  \<open>migrate\<close> that includes the path on which a failure of \<open>up()\<close> is caught and \<open>false\<close>
  is returned. On an exit path on which an error leaves the operation, the connection is
  left as it was. (\<open>list\<close> has no such path.)
\<close>

theorem operations_close_on_return:
  "(snd (migrate revertError w) = Inr b \<longrightarrow> conn_closed (fst (migrate revertError w))) \<and>
   (snd (migrate revertError w) = Inl e \<longrightarrow>
      conn_closed (fst (migrate revertError w)) = conn_closed w) \<and>
   (snd (revert tms name w) = Inr u \<longrightarrow> conn_closed (fst (revert tms name w))) \<and>
   (snd (revert tms name w) = Inl e \<longrightarrow>
      conn_closed (fst (revert tms name w)) = conn_closed w) \<and>
   (snd (reset w) = Inr u \<longrightarrow> conn_closed (fst (reset w))) \<and>
   (snd (reset w) = Inl e \<longrightarrow> conn_closed (fst (reset w)) = conn_closed w) \<and>
   snd (list status w) = Inr u \<and> conn_closed (fst (list status w))"
proof -
  have m: "snd (migrate revertError w) = Inr b \<longrightarrow> conn_closed (fst (migrate revertError w))"
    unfolding migrate_def Let_def by (rule impI) (erule then_close_Inr)
  have m': "snd (migrate revertError w) = Inl e \<longrightarrow>
      conn_closed (fst (migrate revertError w)) = conn_closed w"
    unfolding migrate_def Let_def
    by (rule impI, drule then_close_Inl) (simp add: migrate_body_conn)
  have r: "(snd (revert tms name w) = Inr u \<longrightarrow> conn_closed (fst (revert tms name w))) \<and>
      (snd (revert tms name w) = Inl e \<longrightarrow>
         conn_closed (fst (revert tms name w)) = conn_closed w)"
  proof (cases "tms < 1 \<and> \<not> truthy name")
    case True
    then show ?thesis by (simp add: revert_def)
  next
    case False
    show ?thesis
      unfolding revert_def if_not_P[OF False]
      by (intro conjI impI, erule then_close_Inr, drule then_close_Inl)
        (simp add: umzug_down_migrations_def umzug_down_def Let_def)
  qed
  have s: "snd (reset w) = Inr u \<longrightarrow> conn_closed (fst (reset w))"
    unfolding reset_def by (rule impI) (erule then_close_Inr)
  have s': "snd (reset w) = Inl e \<longrightarrow> conn_closed (fst (reset w)) = conn_closed w"
    unfolding reset_def
    by (rule impI, drule then_close_Inl) (simp add: umzug_down_to_0_def)
  have l: "snd (list status w) = Inr u \<and> conn_closed (fst (list status w))"
    by (simp add: list_def then_close_def Let_def)
  from m m' r s s' l show ?thesis by blast
qed

theorem operations_close_on_return_witness:
  "snd (migrate False (scenario [''001_a'', ''002_b'', ''003_c''] [] [''002_b''] [])) = Inr False \<and>
   conn_closed (fst (migrate False (scenario [''001_a'', ''002_b'', ''003_c''] [] [''002_b''] []))) \<and>
   snd (revert 2 None (scenario [''001_a'', ''002_b''] [''001_a'', ''002_b''] [] [])) = Inr () \<and>
   conn_closed (fst (revert 2 None (scenario [''001_a'', ''002_b''] [''001_a'', ''002_b''] [] []))) \<and>
   snd (reset (scenario [''001_a'', ''002_b''] [''001_a'', ''002_b''] [] [])) = Inr () \<and>
   conn_closed (fst (reset (scenario [''001_a'', ''002_b''] [''001_a'', ''002_b''] [] []))) \<and>
   conn_closed (fst (list ''pending'' (scenario [''001_a'', ''002_b''] [''001_a''] [] [])))"
proof -
  have a: "snd (migrate False (scenario [''001_a'', ''002_b'', ''003_c''] [] [''002_b''] [])) = Inr False"
    by (simp add: run_simps)
  have b: "snd (revert 2 None (scenario [''001_a'', ''002_b''] [''001_a'', ''002_b''] [] [])) = Inr ()"
    by (simp add: run_simps)
  have c: "snd (reset (scenario [''001_a'', ''002_b''] [''001_a'', ''002_b''] [] [])) = Inr ()"
    by (simp add: run_simps)
  from operations_close_on_return[where revertError = False and b = False and
      w = "scenario [''001_a'', ''002_b'', ''003_c''] [] [''002_b''] []"]
    operations_close_on_return[where tms = 2 and name = None and u = "()" and
      w = "scenario [''001_a'', ''002_b''] [''001_a'', ''002_b''] [] []"]
    operations_close_on_return[where status = "''pending''" and
      w = "scenario [''001_a'', ''002_b''] [''001_a''] [] []"]
  show ?thesis using a b c by simp
qed

text \<open>
  Claim C5 at a failing input: three pending units, \<open>003_c.up()\<close> throws, auto-revert
  enabled. The handler hands \<open>executedFromPending\<close> to \<open>umzug.down\<close> in pending order,
  so \<open>001_a.down()\<close> runs before \<open>002_b.down()\<close>: oldest first. The count branch of
  \<open>revert\<close> reverses the executed names before the same call, and there the most recent
  unit is reverted first.
\<close>

theorem auto_revert_runs_oldest_first:
  "ops (fst (migrate True (scenario [''001_a'', ''002_b'', ''003_c''] [] [''003_c''] []))) =
     [Up ''001_a'', Up ''002_b'', Up ''003_c'', Down ''001_a'', Down ''002_b''] \<and>
   ops (fst (revert 2 None
       (scenario [''001_a'', ''002_b'', ''003_c''] [''001_a'', ''002_b'', ''003_c''] [] []))) =
     [Down ''003_c'', Down ''002_b'']"
  by (simp add: run_simps)





text \<open>
  Claim C7. A \<open>revert\<close> call with a count below 1 and no name fails with the error
  "--times must be greater than 0" before anything else happens: nothing is logged, no
  unit is run, the ledger and the connection are untouched.
\<close>

theorem revert_rejects_times_below_one:
  assumes "tms < 1" and "\<not> truthy name"
  shows "revert tms name w = (w, Inl TimesError)"
  using assms by (simp add: revert_def)

theorem revert_rejects_times_below_one_witness:
  "(0::int) < 1 \<and> \<not> truthy None \<and>
   revert 0 None (scenario [''001_a''] [''001_a''] [] []) =
     (scenario [''001_a''] [''001_a''] [] [], Inl TimesError)"
proof -
  have h: "(0::int) < 1" "\<not> truthy None" by (simp_all add: truthy_def)
  from revert_rejects_times_below_one[OF h] show ?thesis using h by simp
qed

text \<open>
  Claim C8. \<open>migrate\<close> is idempotent: after a \<open>migrate\<close> that returned \<open>true\<close>, a second
  \<open>migrate\<close> over the same units and the ledger the first one left finds no pending
  migration, logs "Looking for pending migrations..." and then "No pending migrations to
  apply" and nothing else, runs no \<open>up()\<close> (it runs nothing and leaves the ledger alone),
  closes the connection and returns \<open>true\<close>.
\<close>

theorem migrate_idempotent:
  assumes "migrate revertError w = (w1, Inr True)"
    and "units w2 = units w1" and "ledger w2 = ledger w1"
  shows "umzug_pending w2 = [] \<and>
         migrate revertError' w2 = (close (say [LookingForPending, NoPending] w2), Inr True) \<and>
         snd (migrate revertError' w2) = Inr True \<and>
         report (fst (migrate revertError' w2)) = report w2 @ [LookingForPending, NoPending] \<and>
         ops (fst (migrate revertError' w2)) = ops w2 \<and>
         ledger (fst (migrate revertError' w2)) = ledger w2 \<and>
         conn_closed (fst (migrate revertError' w2))"
proof -
  have "umzug_pending w1 = []"
  proof (cases "umzug_pending w = []")
    case True
    with assms(1) show ?thesis
      by (auto simp: migrate_def then_close_def umzug_pending_def)
  next
    case False
    let ?w0 = "say [ApplyingPending] (say [LookingForPending] w)"
    obtain w' res where u: "up_each (umzug_pending w) ?w0 = (w', res)"
      by (cases "up_each (umzug_pending w) ?w0")
    with False assms(1) obtain applied where a: "res = Inr applied"
      "w1 = close (say (AppliedCount (length applied) # map Arrow applied) w')"
      by (auto simp: migrate_def then_close_def umzug_up_def Let_def
          split: sum.splits prod.splits)
    from up_each_Inr[of "umzug_pending w" ?w0 w' applied] u a(1)
    have "ledger w' = ledger w @ umzug_pending w" "units w' = units w" by simp_all
    with a(2) show ?thesis
      by (auto simp: umzug_pending_def filter_empty_conv)
  qed
  with assms(2,3) have "umzug_pending w2 = []" by (simp add: umzug_pending_def)
  then show ?thesis by (simp add: migrate_def then_close_def say_say)
qed

theorem migrate_idempotent_witness:
  "snd (migrate False (scenario [''001_a'', ''002_b'', ''003_c''] [] [] [])) = Inr True \<and>
   ledger (fst (migrate False (scenario [''001_a'', ''002_b'', ''003_c''] [] [] []))) =
     [''001_a'', ''002_b'', ''003_c''] \<and>
   report (fst (migrate False (scenario [''001_a'', ''002_b'', ''003_c''] [] [] []))) =
     [LookingForPending, ApplyingPending, AppliedCount 3,
      Arrow ''001_a'', Arrow ''002_b'', Arrow ''003_c''] \<and>
   umzug_pending (fst (migrate False (scenario [''001_a'', ''002_b'', ''003_c''] [] [] []))) = [] \<and>
   snd (migrate False (fst (migrate False (scenario [''001_a'', ''002_b'', ''003_c''] [] [] [])))) =
     Inr True \<and>
   report (fst (migrate False
      (fst (migrate False (scenario [''001_a'', ''002_b'', ''003_c''] [] [] []))))) =
     [LookingForPending, ApplyingPending, AppliedCount 3,
      Arrow ''001_a'', Arrow ''002_b'', Arrow ''003_c'', LookingForPending, NoPending] \<and>
   ops (fst (migrate False (fst (migrate False (scenario [''001_a'', ''002_b'', ''003_c''] [] [] []))))) =
     [Up ''001_a'', Up ''002_b'', Up ''003_c'']"
proof -
  let ?w = "scenario [''001_a'', ''002_b'', ''003_c''] [] [] []"
  have m: "migrate False ?w = (fst (migrate False ?w), Inr True)"
    by (simp add: run_simps)
  have l: "ledger (fst (migrate False ?w)) = [''001_a'', ''002_b'', ''003_c'']"
    "ops (fst (migrate False ?w)) = [Up ''001_a'', Up ''002_b'', Up ''003_c'']"
    "report (fst (migrate False ?w)) =
       [LookingForPending, ApplyingPending, AppliedCount 3,
        Arrow ''001_a'', Arrow ''002_b'', Arrow ''003_c'']"
    by (simp_all add: run_simps)
  have s: "snd (migrate False ?w) = Inr True"
    by (simp add: run_simps)
  from migrate_idempotent[OF m refl refl, of False] show ?thesis
    using l s by simp
qed

text \<open>
  Claim C10, as stated, fails: the empty string is a name that is not \<open>null\<close>, but it is
  falsy, so \<open>revert(0, "")\<close> throws the validation error while \<open>revert(1, "")\<close> reverts
  the last migration.
\<close>

theorem revert_empty_name_counterexample:
  "snd (revert 0 (Some []) (scenario [''001_a''] [''001_a''] [] [])) = Inl TimesError \<and>
   snd (revert 1 (Some []) (scenario [''001_a''] [''001_a''] [] [])) = Inr () \<and>
   ops (fst (revert 1 (Some []) (scenario [''001_a''] [''001_a''] [] []))) = [Down ''001_a'']"
  by (simp add: run_simps)

text \<open>
  Claim C10, amended. For every call to \<open>revert\<close> with a non-empty name, the behaviour
  does not depend on the count: two calls with the same name and different counts, from
  the same state, have the same effects, reports and outcome, and the validation error
  of a count below 1 is never raised.
\<close>

theorem revert_name_ignores_times:
  assumes "name \<noteq> []"
  shows "revert t1 (Some name) w = revert t2 (Some name) w \<and>
         snd (revert t1 (Some name) w) \<noteq> Inl TimesError"
proof -
  let ?byname = "then_close (then_reverted
      (umzug_down_migrations [name] (say [TryingRevertName name] w)))"
  from assms have r: "revert t (Some name) w = ?byname" for t
    by (simp add: revert_def truthy_def)
  have "snd ?byname \<noteq> Inl TimesError"
    by (simp add: then_close_def then_reverted_def umzug_down_migrations_def)
  with r show ?thesis by simp
qed

theorem revert_name_ignores_times_witness:
  "''002_b'' \<noteq> [] \<and>
   revert 0 (Some ''002_b'') (scenario [''001_a'', ''002_b''] [''001_a'', ''002_b''] [] []) =
   revert 7 (Some ''002_b'') (scenario [''001_a'', ''002_b''] [''001_a'', ''002_b''] [] []) \<and>
   snd (revert 0 (Some ''002_b'') (scenario [''001_a'', ''002_b''] [''001_a'', ''002_b''] [] [])) =
     Inr () \<and>
   ledger (fst (revert 0 (Some ''002_b'')
      (scenario [''001_a'', ''002_b''] [''001_a'', ''002_b''] [] []))) = [''001_a'']"
proof -
  have h: "''002_b'' \<noteq> []" by simp
  have e: "snd (revert 0 (Some ''002_b'')
      (scenario [''001_a'', ''002_b''] [''001_a'', ''002_b''] [] [])) = Inr ()"
    "ledger (fst (revert 0 (Some ''002_b'')
      (scenario [''001_a'', ''002_b''] [''001_a'', ''002_b''] [] []))) = [''001_a'']"
    by (simp_all add: run_simps)
  from revert_name_ignores_times[OF h, of 0 _ 7] show ?thesis
    using e by simp
qed

end
